theory Spec2Isabelle
  imports Main "HOL-Library.Word" "HOL-Library.Char_ord" "HOL-Library.List_Lexorder"
begin

section \<open>JavaScript values, promises and the calls a handler makes\<close>

text \<open>
  \<^verbatim>\<open>cache.js\<close> wraps five IndexedDB requests in promises. Each function of the file
  registers event handlers; a handler is a short straight-line sequence of calls
  (\<^verbatim>\<open>resolve\<close>, \<^verbatim>\<open>reject\<close>, \<^verbatim>\<open>db.close()\<close>, \<^verbatim>\<open>console.error\<close>,
  \<^verbatim>\<open>createObjectStore\<close>, \<^verbatim>\<open>cursor.continue()\<close>). The embedding keeps that shape:
  a handler maps the event it receives to the list of calls it makes, in source order,
  and a function of the file maps the events the browser fires to the trace of all calls.

  The values that can be stored: what the structured clone algorithm copies. Numbers
  are restricted to integer-valued ones; a \<^verbatim>\<open>Blob\<close> is its bytes. Two values are equal
  when they are structurally equal (a read returns a clone, never the same object).
\<close>

datatype js_value =
    JUndefined
  | JNull
  | JBool bool
  | JNum int
  | JStr string
  | JBlob "8 word list"
  | JArray "js_value list"

text \<open>JavaScript's \<^verbatim>\<open>ToBoolean\<close>: objects (a Blob, an array) are always truthy.\<close>

fun truthy :: "js_value \<Rightarrow> bool" where
  "truthy JUndefined = False"
| "truthy JNull = False"
| "truthy (JBool b) = b"
| "truthy (JNum n) = (n \<noteq> 0)"
| "truthy (JStr s) = (s \<noteq> [])"
| "truthy (JBlob bs) = True"
| "truthy (JArray vs) = True"

text \<open>The operator \<^verbatim>\<open>a || b\<close>.\<close>

definition js_or :: "js_value \<Rightarrow> js_value \<Rightarrow> js_value" where
  "js_or a b = (if truthy a then a else b)"

text \<open>
  \<^verbatim>\<open>request.error\<close> and \<^verbatim>\<open>transaction.error\<close>: a \<^verbatim>\<open>DOMException\<close> with its name, or
  \<^verbatim>\<open>null\<close>.
\<close>

datatype dom_error = NullError | DOMException string

type_synonym key = string

text \<open>The \<^verbatim>\<open>IDBDatabase\<close> handle that \<^verbatim>\<open>openGameDB\<close> resolves with.\<close>

datatype conn = Conn

datatype 'a action =
    Resolve 'a
  | Reject dom_error
  | Close
  | ConsoleError string
  | CreateObjectStore string
  | Continue

datatype 'a promise = Pending | Fulfilled 'a | Rejected dom_error

text \<open>
  A promise settles once: the first \<^verbatim>\<open>resolve\<close> or \<^verbatim>\<open>reject\<close> of the trace decides,
  later ones are ignored.
\<close>

fun settled :: "'a action list \<Rightarrow> 'a promise" where
  "settled [] = Pending"
| "settled (Resolve v # acts) = Fulfilled v"
| "settled (Reject e # acts) = Rejected e"
| "settled (a # acts) = settled acts"

text \<open>
  The connection is closed before the promise settles: a \<^verbatim>\<open>db.close()\<close> stands in the
  trace before the first \<^verbatim>\<open>resolve\<close> or \<^verbatim>\<open>reject\<close>.
\<close>

fun closed_before_settle :: "'a action list \<Rightarrow> bool" where
  "closed_before_settle [] = False"
| "closed_before_settle (Close # acts) = True"
| "closed_before_settle (Resolve v # acts) = False"
| "closed_before_settle (Reject e # acts) = False"
| "closed_before_settle (a # acts) = closed_before_settle acts"

text \<open>The promise settles first and \<^verbatim>\<open>db.close()\<close> is called later.\<close>

fun closed_after_settle :: "'a action list \<Rightarrow> bool" where
  "closed_after_settle [] = False"
| "closed_after_settle (Close # acts) = False"
| "closed_after_settle (Resolve v # acts) = (Close \<in> set acts)"
| "closed_after_settle (Reject e # acts) = (Close \<in> set acts)"
| "closed_after_settle (a # acts) = closed_after_settle acts"

definition console :: "'a action list \<Rightarrow> string list" where
  "console acts = concat (map (\<lambda>a. case a of ConsoleError s \<Rightarrow> [s] | _ \<Rightarrow> []) acts)"

definition creations :: "'a action list \<Rightarrow> nat" where
  "creations acts = length (filter (\<lambda>a. case a of CreateObjectStore n \<Rightarrow> True | _ \<Rightarrow> False) acts)"

text \<open>
  What an awaiting caller keeps of the calls made while \<^verbatim>\<open>openGameDB\<close> ran: the log
  line and the store creation; its \<^verbatim>\<open>resolve\<close>/\<^verbatim>\<open>reject\<close> settle the inner promise only.
\<close>

fun effects :: "'a action list \<Rightarrow> 'b action list" where
  "effects [] = []"
| "effects (ConsoleError s # acts) = ConsoleError s # effects acts"
| "effects (CreateObjectStore n # acts) = CreateObjectStore n # effects acts"
| "effects (a # acts) = effects acts"

section \<open>The browser's side: IndexedDB\<close>

text \<open>
  The database \<^verbatim>\<open>BalatroCacheDB\<close>: \<open>None\<close> while it does not exist (version 0),
  \<open>Some rs\<close> once it exists at version 1 with the object store \<^verbatim>\<open>cache\<close> holding the
  records \<open>rs\<close>. An object store keeps its records in ascending key order, one record per
  key. Nothing but this file opens the database, so it has no other shape.
\<close>

type_synonym records = "(key \<times> js_value) list"

type_synonym idb = "records option"

fun put_record :: "js_value \<Rightarrow> key \<Rightarrow> records \<Rightarrow> records" where
  "put_record v k [] = [(k, v)]"
| "put_record v k ((k', v') # rs) =
     (if k < k' then (k, v) # (k', v') # rs
      else if k = k' then (k, v) # rs
      else (k', v') # put_record v k rs)"

definition delete_record :: "key \<Rightarrow> records \<Rightarrow> records" where
  "delete_record k rs = filter (\<lambda>r. fst r \<noteq> k) rs"

text \<open>\<^verbatim>\<open>store.get(key)\<close> succeeds with \<^verbatim>\<open>undefined\<close> when no record has the key.\<close>

definition get_record :: "key \<Rightarrow> records \<Rightarrow> js_value" where
  "get_record k rs = (case map_of rs k of None \<Rightarrow> JUndefined | Some v \<Rightarrow> v)"

text \<open>
  The events of an open request. \<^verbatim>\<open>upgradeneeded\<close> is fired when the database is below
  the requested version 1, that is when it does not exist yet. What the browser does
  with the request is its choice: \<open>OpenFails\<close> (the request errors), \<open>OpenBlocked\<close> (a
  \<^verbatim>\<open>blocked\<close> event first, then the holder releases and the request goes on),
  \<open>OpenStuck\<close> (blocked, and the holder has not released).
\<close>

datatype open_event = Upgradeneeded | OpenSuccess | OpenError dom_error | Blocked

datatype open_fate = OpenOk | OpenBlocked | OpenStuck | OpenFails dom_error

definition upgrade_events :: "idb \<Rightarrow> open_event list" where
  "upgrade_events st = (case st of None \<Rightarrow> [Upgradeneeded] | Some rs \<Rightarrow> [])"

fun idb_open :: "open_fate \<Rightarrow> idb \<Rightarrow> open_event list" where
  "idb_open OpenOk st = upgrade_events st @ [OpenSuccess]"
| "idb_open OpenBlocked st = Blocked # upgrade_events st @ [OpenSuccess]"
| "idb_open OpenStuck st = [Blocked]"
| "idb_open (OpenFails e) st = [OpenError e]"

text \<open>
  The events of a transaction with one request. The request's \<^verbatim>\<open>error\<close> event bubbles
  to the transaction (whose \<^verbatim>\<open>error\<close> attribute is still \<^verbatim>\<open>null\<close> then) and aborts
  it; a transaction whose requests succeeded either completes or fails to commit and
  aborts. \<open>RequestFails n e\<close>: the request fails with \<open>e\<close> after \<open>n\<close> \<^verbatim>\<open>success\<close>
  events (a cursor request succeeds once per record; \<open>n\<close> plays no part for
  \<^verbatim>\<open>get\<close>, \<^verbatim>\<open>put\<close> and \<^verbatim>\<open>delete\<close>).
\<close>

datatype 'r tx_event =
    ReqSuccess 'r
  | ReqError dom_error
  | TxComplete
  | TxError dom_error
  | TxAbort dom_error

datatype tx_fate = Commits | RequestFails nat dom_error | CommitFails dom_error

fun tx_end :: "tx_fate \<Rightarrow> 'r tx_event list" where
  "tx_end Commits = [TxComplete]"
| "tx_end (RequestFails n e) = [ReqError e, TxError NullError, TxAbort e]"
| "tx_end (CommitFails e) = [TxAbort e]"

fun tx_events :: "tx_fate \<Rightarrow> 'r \<Rightarrow> 'r tx_event list" where
  "tx_events (RequestFails n e) r = tx_end (RequestFails n e)"
| "tx_events tf r = ReqSuccess r # tx_end tf"

text \<open>A write is kept when the transaction commits; an abort rolls it back.\<close>

fun committed :: "tx_fate \<Rightarrow> records \<Rightarrow> records \<Rightarrow> records" where
  "committed Commits new old = new"
| "committed tf new old = old"

definition idb_get :: "tx_fate \<Rightarrow> key \<Rightarrow> records \<Rightarrow> js_value tx_event list" where
  "idb_get tf k rs = tx_events tf (get_record k rs)"

text \<open>A \<^verbatim>\<open>put\<close> request succeeds with the key, a \<^verbatim>\<open>delete\<close> request with \<^verbatim>\<open>undefined\<close>,
  also when no record has the key.\<close>

definition idb_put :: "tx_fate \<Rightarrow> js_value \<Rightarrow> key \<Rightarrow> records \<Rightarrow> records \<times> js_value tx_event list" where
  "idb_put tf v k rs = (committed tf (put_record v k rs) rs, tx_events tf (JStr k))"

definition idb_delete :: "tx_fate \<Rightarrow> key \<Rightarrow> records \<Rightarrow> records \<times> js_value tx_event list" where
  "idb_delete tf k rs = (committed tf (delete_record k rs) rs, tx_events tf JUndefined)"

text \<open>
  Handlers that share a variable (the array \<^verbatim>\<open>found_keys\<close>) take its content and
  return the new one; the events are handed over in order.
\<close>

fun dispatch_state ::
  "('s \<Rightarrow> 'e \<Rightarrow> 's \<times> 'a action list) \<Rightarrow> 's \<Rightarrow> 'e list \<Rightarrow> 'a action list" where
  "dispatch_state handler s [] = []"
| "dispatch_state handler s (ev # evs) =
     (case handler s ev of (s', acts) \<Rightarrow> acts @ dispatch_state handler s' evs)"

text \<open>
  A request that fails after \<open>n\<close> successes has \<open>n - 1\<close> left after one of them. A
  transaction whose request is not continued has nothing pending: it completes, or
  fails to commit.
\<close>

fun next_request :: "tx_fate \<Rightarrow> tx_fate" where
  "next_request (RequestFails (Suc n) e) = RequestFails n e"
| "next_request tf = tf"

fun tx_idle :: "tx_fate \<Rightarrow> 'r tx_event list" where
  "tx_idle (CommitFails e) = [TxAbort e]"
| "tx_idle tf = [TxComplete]"

text \<open>
  A forward cursor (\<^verbatim>\<open>store.openCursor()\<close>) over the records, with the handlers
  registered on its request and transaction. The browser fires a \<^verbatim>\<open>success\<close> event
  with the cursor at the first record and waits: it advances, and fires the next event,
  only if the handler has called \<^verbatim>\<open>cursor.continue()\<close>; otherwise the request is over
  and the transaction ends. Past the last record the event carries a \<^verbatim>\<open>null\<close> cursor
  and the transaction ends. A failing request fires \<^verbatim>\<open>error\<close> in place of its next
  \<^verbatim>\<open>success\<close>.
\<close>

fun idb_cursor ::
  "('s \<Rightarrow> key option tx_event \<Rightarrow> 's \<times> 'a action list) \<Rightarrow> tx_fate \<Rightarrow> 's \<Rightarrow> records
     \<Rightarrow> 'a action list" where
  "idb_cursor handler (RequestFails n e) s [] =
     dispatch_state handler s (tx_end (RequestFails n e))"
| "idb_cursor handler (RequestFails 0 e) s (r # rs) =
     dispatch_state handler s (tx_end (RequestFails 0 e))"
| "idb_cursor handler tf s [] =
     (case handler s (ReqSuccess None) of
        (s', acts) \<Rightarrow> acts @ dispatch_state handler s' (tx_end tf))"
| "idb_cursor handler tf s (r # rs) =
     (case handler s (ReqSuccess (Some (fst r))) of
        (s', acts) \<Rightarrow>
          acts @ (if Continue \<in> set acts then idb_cursor handler (next_request tf) s' rs
                  else dispatch_state handler s' (tx_idle tf)))"

section \<open>The functions of \<^verbatim>\<open>cache.js\<close>\<close>

text \<open>Every event is handed to the handler registered for it; the calls add up.\<close>

definition dispatch :: "('e \<Rightarrow> 'a action list) \<Rightarrow> 'e list \<Rightarrow> 'a action list" where
  "dispatch handler evs = concat (map handler evs)"

subsection \<open>\<^verbatim>\<open>openGameDB\<close>\<close>

definition blocked_message :: string where
  "blocked_message =
     ''Database open blocked, likely by another tab. Please close other tabs and try again.''"

text \<open>
  \<^verbatim>\<open>onupgradeneeded\<close>, \<^verbatim>\<open>onsuccess\<close>, \<^verbatim>\<open>onerror\<close>, \<^verbatim>\<open>onblocked\<close> of the open request.
\<close>

fun openGameDB_handler :: "open_event \<Rightarrow> conn action list" where
  "openGameDB_handler Upgradeneeded = [CreateObjectStore ''cache'']"
| "openGameDB_handler OpenSuccess = [Resolve Conn]"
| "openGameDB_handler (OpenError e) = [Reject e]"
| "openGameDB_handler Blocked = [ConsoleError blocked_message]"

text \<open>\<^verbatim>\<open>createObjectStore("cache")\<close> in the upgrade of a new database makes the store.\<close>

fun apply_create :: "'a action \<Rightarrow> idb \<Rightarrow> idb" where
  "apply_create (CreateObjectStore n) None = (if n = ''cache'' then Some [] else None)"
| "apply_create a st = st"

definition openGameDB :: "open_fate \<Rightarrow> idb \<Rightarrow> idb \<times> conn action list" where
  "openGameDB fo st =
     (let acts = dispatch openGameDB_handler (idb_open fo st)
      in (fold apply_create acts st, acts))"

text \<open>
  \<^verbatim>\<open>const db = await openGameDB(); return new Promise(executor)\<close>, the start of the four
  other functions. A rejected open is thrown by \<^verbatim>\<open>await\<close> and rejects the caller's
  promise; an open that stays pending leaves it pending. \<^verbatim>\<open>db.transaction("cache", ...)\<close>
  throws \<^verbatim>\<open>NotFoundError\<close> inside the executor when the store is missing.
\<close>

definition with_db ::
  "open_fate \<Rightarrow> idb \<Rightarrow> (records \<Rightarrow> records \<times> 'a action list) \<Rightarrow> idb \<times> 'a action list" where
  "with_db fo st executor =
     (case openGameDB fo st of (st1, acts) \<Rightarrow>
        (case settled acts of
           Pending \<Rightarrow> (st1, effects acts)
         | Rejected e \<Rightarrow> (st1, effects acts @ [Reject e])
         | Fulfilled db \<Rightarrow>
             (case st1 of
                None \<Rightarrow> (st1, effects acts @ [Reject (DOMException ''NotFoundError'')])
              | Some rs \<Rightarrow>
                  (case executor rs of (rs', acts') \<Rightarrow> (Some rs', effects acts @ acts')))))"

text \<open>The default parameter \<^verbatim>\<open>key = "vanilla"\<close>: \<open>None\<close> is the omitted argument.\<close>

definition default_key :: "key option \<Rightarrow> key" where
  "default_key ko = (case ko of None \<Rightarrow> ''vanilla'' | Some k \<Rightarrow> k)"

subsection \<open>\<^verbatim>\<open>loadCachedGame\<close>\<close>

text \<open>
  \<^verbatim>\<open>getReq.onsuccess = () => resolve(getReq.result || null)\<close>,
  \<^verbatim>\<open>getReq.onerror = () => reject(getReq.error)\<close>, and the three transaction handlers,
  each \<^verbatim>\<open>() => db.close()\<close>.
\<close>

fun loadCachedGame_handler :: "js_value tx_event \<Rightarrow> js_value action list" where
  "loadCachedGame_handler (ReqSuccess r) = [Resolve (js_or r JNull)]"
| "loadCachedGame_handler (ReqError e) = [Reject e]"
| "loadCachedGame_handler TxComplete = [Close]"
| "loadCachedGame_handler (TxError te) = [Close]"
| "loadCachedGame_handler (TxAbort te) = [Close]"

definition loadCachedGame ::
  "key option \<Rightarrow> open_fate \<Rightarrow> tx_fate \<Rightarrow> idb \<Rightarrow> idb \<times> js_value action list" where
  "loadCachedGame ko fo tf st =
     with_db fo st (\<lambda>rs. (rs, dispatch loadCachedGame_handler (idb_get tf (default_key ko) rs)))"

subsection \<open>\<^verbatim>\<open>saveGameToCache\<close>\<close>

text \<open>
  No \<^verbatim>\<open>onsuccess\<close> handler on the put request; \<^verbatim>\<open>putReq.onerror\<close> rejects;
  \<^verbatim>\<open>transaction.oncomplete\<close> closes and resolves (with \<^verbatim>\<open>undefined\<close>);
  \<^verbatim>\<open>transaction.onerror\<close> and \<^verbatim>\<open>transaction.onabort\<close> close and reject with
  \<^verbatim>\<open>transaction.error\<close>.
\<close>

fun saveGameToCache_handler :: "js_value tx_event \<Rightarrow> js_value action list" where
  "saveGameToCache_handler (ReqSuccess r) = []"
| "saveGameToCache_handler (ReqError e) = [Reject e]"
| "saveGameToCache_handler TxComplete = [Close, Resolve JUndefined]"
| "saveGameToCache_handler (TxError te) = [Close, Reject te]"
| "saveGameToCache_handler (TxAbort te) = [Close, Reject te]"

definition saveGameToCache ::
  "js_value \<Rightarrow> key option \<Rightarrow> open_fate \<Rightarrow> tx_fate \<Rightarrow> idb \<Rightarrow> idb \<times> js_value action list" where
  "saveGameToCache blob ko fo tf st =
     with_db fo st (\<lambda>rs. case idb_put tf blob (default_key ko) rs of
        (rs', evs) \<Rightarrow> (rs', dispatch saveGameToCache_handler evs))"

subsection \<open>\<^verbatim>\<open>deleteCachedGame\<close>\<close>

fun deleteCachedGame_handler :: "js_value tx_event \<Rightarrow> js_value action list" where
  "deleteCachedGame_handler (ReqSuccess r) = []"
| "deleteCachedGame_handler (ReqError e) = [Reject e]"
| "deleteCachedGame_handler TxComplete = [Close, Resolve JUndefined]"
| "deleteCachedGame_handler (TxError te) = [Close, Reject te]"
| "deleteCachedGame_handler (TxAbort te) = [Close, Reject te]"

definition deleteCachedGame ::
  "key \<Rightarrow> open_fate \<Rightarrow> tx_fate \<Rightarrow> idb \<Rightarrow> idb \<times> js_value action list" where
  "deleteCachedGame k fo tf st =
     with_db fo st (\<lambda>rs. case idb_delete tf k rs of
        (rs', evs) \<Rightarrow> (rs', dispatch deleteCachedGame_handler evs))"

subsection \<open>\<^verbatim>\<open>listCachedVersions\<close>\<close>

text \<open>
  The handlers share the array \<^verbatim>\<open>found_keys\<close>: each takes its current content and
  returns the new one. \<^verbatim>\<open>cursorReq.onsuccess\<close> pushes the key and calls
  \<^verbatim>\<open>cursor.continue()\<close> when the cursor is not \<^verbatim>\<open>null\<close>, and does nothing when it is.
  The cursor request is made with these handlers, starting from the empty array.
\<close>

fun listCachedVersions_handler ::
  "key list \<Rightarrow> key option tx_event \<Rightarrow> key list \<times> js_value action list" where
  "listCachedVersions_handler found_keys (ReqSuccess (Some k)) = (found_keys @ [k], [Continue])"
| "listCachedVersions_handler found_keys (ReqSuccess None) = (found_keys, [])"
| "listCachedVersions_handler found_keys (ReqError e) = (found_keys, [Reject e])"
| "listCachedVersions_handler found_keys TxComplete =
     (found_keys, [Close, Resolve (JArray (map JStr found_keys))])"
| "listCachedVersions_handler found_keys (TxError te) = (found_keys, [Close, Reject te])"
| "listCachedVersions_handler found_keys (TxAbort te) = (found_keys, [Close, Reject te])"

definition listCachedVersions ::
  "open_fate \<Rightarrow> tx_fate \<Rightarrow> idb \<Rightarrow> idb \<times> js_value action list" where
  "listCachedVersions fo tf st =
     with_db fo st (\<lambda>rs. (rs, idb_cursor listCachedVersions_handler tf [] rs))"

subsection \<open>Sequences of calls\<close>

datatype call =
    OpenGameDB
  | LoadCachedGame "key option"
  | SaveGameToCache js_value "key option"
  | DeleteCachedGame key
  | ListCachedVersions

text \<open>One call: the database after it, and how many object stores it created.\<close>

fun exec :: "call \<Rightarrow> open_fate \<Rightarrow> tx_fate \<Rightarrow> idb \<Rightarrow> idb \<times> nat" where
  "exec OpenGameDB fo tf st = (case openGameDB fo st of (st', acts) \<Rightarrow> (st', creations acts))"
| "exec (LoadCachedGame ko) fo tf st =
     (case loadCachedGame ko fo tf st of (st', acts) \<Rightarrow> (st', creations acts))"
| "exec (SaveGameToCache blob ko) fo tf st =
     (case saveGameToCache blob ko fo tf st of (st', acts) \<Rightarrow> (st', creations acts))"
| "exec (DeleteCachedGame k) fo tf st =
     (case deleteCachedGame k fo tf st of (st', acts) \<Rightarrow> (st', creations acts))"
| "exec ListCachedVersions fo tf st =
     (case listCachedVersions fo tf st of (st', acts) \<Rightarrow> (st', creations acts))"

text \<open>Calls made one after the other, each awaited, each with the browser's choices.\<close>

fun run :: "(call \<times> open_fate \<times> tx_fate) list \<Rightarrow> idb \<Rightarrow> idb \<times> nat" where
  "run [] st = (st, 0)"
| "run ((c, fo, tf) # cs) st =
     (case exec c fo tf st of (st1, n) \<Rightarrow>
        (case run cs st1 of (st2, m) \<Rightarrow> (st2, n + m)))"

text \<open>The keys and the lookup of a database; a database that does not exist has none.\<close>

definition stored_keys :: "idb \<Rightarrow> key list" where
  "stored_keys st = (case st of None \<Rightarrow> [] | Some rs \<Rightarrow> map fst rs)"

definition lookup :: "idb \<Rightarrow> key \<Rightarrow> js_value option" where
  "lookup st k = (case st of None \<Rightarrow> None | Some rs \<Rightarrow> map_of rs k)"

text \<open>The invariant of an object store: ascending keys, so one record per key.\<close>

definition store_ok :: "idb \<Rightarrow> bool" where
  "store_ok st = (case st of None \<Rightarrow> True | Some rs \<Rightarrow> sorted_wrt (<) (map fst rs))"

definition opens :: "open_fate \<Rightarrow> bool" where
  "opens fo = (fo = OpenOk \<or> fo = OpenBlocked)"

fun request_succeeds :: "tx_fate \<Rightarrow> bool" where
  "request_succeeds (RequestFails n e) = False"
| "request_succeeds tf = True"

text \<open>The records a call works on once the open has succeeded: a new database is empty.\<close>

definition records_of :: "idb \<Rightarrow> records" where
  "records_of st = (case st of None \<Rightarrow> [] | Some rs \<Rightarrow> rs)"

text \<open>
  The calls a successful open leaves in the caller's trace. Like \<^verbatim>\<open>cursor.continue()\<close>,
  they neither settle the promise nor close the connection.
\<close>

definition open_effects :: "open_fate \<Rightarrow> idb \<Rightarrow> 'a action list" where
  "open_effects fo st =
     (if fo = OpenBlocked then [ConsoleError blocked_message] else []) @
     (if st = None then [CreateObjectStore ''cache''] else [])"

fun silent :: "'a action \<Rightarrow> bool" where
  "silent (ConsoleError s) = True"
| "silent (CreateObjectStore n) = True"
| "silent Continue = True"
| "silent a = False"

section \<open>Traces, the open and the object store: basic facts\<close>

lemma settled_silent: "list_all silent pre \<Longrightarrow> settled (pre @ acts) = settled acts"
proof (induction pre)
  case Nil then show ?case by simp
next
  case (Cons a pre) then show ?case by (cases a) simp_all
qed

lemma closed_before_settle_silent:
  "list_all silent pre \<Longrightarrow> closed_before_settle (pre @ acts) = closed_before_settle acts"
proof (induction pre)
  case Nil then show ?case by simp
next
  case (Cons a pre) then show ?case by (cases a) simp_all
qed

lemma closed_after_settle_silent:
  "list_all silent pre \<Longrightarrow> closed_after_settle (pre @ acts) = closed_after_settle acts"
proof (induction pre)
  case Nil then show ?case by simp
next
  case (Cons a pre) then show ?case by (cases a) simp_all
qed

lemma Close_silent: "list_all silent pre \<Longrightarrow> Close \<in> set (pre @ acts) \<longleftrightarrow> Close \<in> set acts"
  by (induction pre) (auto elim: silent.elims)

lemma silent_open_effects: "list_all silent (open_effects fo st)"
  by (simp add: open_effects_def)

lemma creations_open_effects: "creations (open_effects fo st :: 'a action list) = (if st = None then 1 else 0)"
  by (simp add: open_effects_def creations_def)

lemma creations_append: "creations (xs @ ys) = creations xs + creations ys"
  by (simp add: creations_def)

lemma openGameDB_opens:
  "opens fo \<Longrightarrow> openGameDB fo st =
     (Some (records_of st),
      (if fo = OpenBlocked then [ConsoleError blocked_message] else []) @
      (if st = None then [CreateObjectStore ''cache''] else []) @ [Resolve Conn])"
  by (cases st) (auto simp: opens_def openGameDB_def dispatch_def upgrade_events_def records_of_def)

lemma with_db_opens:
  "opens fo \<Longrightarrow> with_db fo st ex =
     (Some (fst (ex (records_of st))), open_effects fo st @ snd (ex (records_of st)))"
  by (cases st) (auto simp: with_db_def openGameDB_opens open_effects_def records_of_def split: prod.splits)

lemma with_db_stuck: "with_db OpenStuck st ex = (st, [ConsoleError blocked_message])"
  by (simp add: with_db_def openGameDB_def dispatch_def)

lemma with_db_fails: "with_db (OpenFails e) st ex = (st, [Reject e])"
  by (simp add: with_db_def openGameDB_def dispatch_def)

lemma map_of_put_record: "map_of (put_record v k rs) = (map_of rs)(k \<mapsto> v)"
  by (induction rs) (auto simp: fun_eq_iff)

lemma keys_put_record: "fst ` set (put_record v k rs) = insert k (fst ` set rs)"
proof (induction rs)
  case Nil then show ?case by simp
next
  case (Cons r rs)
  obtain k' v' where r: "r = (k', v')" by (cases r)
  show ?case using Cons.IH unfolding r by (cases "k < k'"; cases "k = k'") auto
qed

lemma sorted_put_record:
  "sorted_wrt (<) (map fst rs) \<Longrightarrow> sorted_wrt (<) (map fst (put_record v k rs))"
proof (induction rs)
  case Nil then show ?case by simp
next
  case (Cons r rs)
  obtain k' v' where r: "r = (k', v')" by (cases r)
  from Cons.prems have tl: "sorted_wrt (<) (map fst rs)" and hd: "\<forall>x \<in> fst ` set rs. k' < x"
    by (auto simp: r)
  show ?case
  proof (cases "k < k'")
    case True
    then have "\<forall>x \<in> fst ` set rs. k < x" using hd by fastforce
    then show ?thesis using True hd tl by (simp add: r)
  next
    case False
    show ?thesis
    proof (cases "k = k'")
      case True then show ?thesis using hd tl by (simp add: r)
    next
      case neq: False
      then have "k' < k" using False by simp
      then have "\<forall>x \<in> fst ` set (put_record v k rs). k' < x"
        using hd by (simp add: keys_put_record)
      then show ?thesis using False neq Cons.IH[OF tl] by (simp add: r)
    qed
  qed
qed

lemma sorted_delete_record:
  "sorted_wrt (<) (map fst rs) \<Longrightarrow> sorted_wrt (<) (map fst (delete_record k rs))"
  by (induction rs) (auto simp: delete_record_def)

lemma map_of_delete_record: "map_of (delete_record k rs) = (map_of rs)(k := None)"
  by (induction rs) (auto simp: delete_record_def fun_eq_iff)

lemma delete_record_absent: "map_of rs k = None \<Longrightarrow> delete_record k rs = rs"
  by (induction rs) (auto simp: delete_record_def split: if_splits)


lemma loadCachedGame_opens:
  "opens fo \<Longrightarrow> loadCachedGame ko fo tf st =
     (Some (records_of st),
      open_effects fo st @
      dispatch loadCachedGame_handler (idb_get tf (default_key ko) (records_of st)))"
  by (simp add: loadCachedGame_def with_db_opens)

lemma saveGameToCache_opens:
  "opens fo \<Longrightarrow> saveGameToCache b ko fo tf st =
     (Some (committed tf (put_record b (default_key ko) (records_of st)) (records_of st)),
      open_effects fo st @
      dispatch saveGameToCache_handler (tx_events tf (JStr (default_key ko))))"
  by (simp add: saveGameToCache_def with_db_opens idb_put_def)

lemma deleteCachedGame_opens:
  "opens fo \<Longrightarrow> deleteCachedGame k fo tf st =
     (Some (committed tf (delete_record k (records_of st)) (records_of st)),
      open_effects fo st @ dispatch deleteCachedGame_handler (tx_events tf JUndefined))"
  by (simp add: deleteCachedGame_def with_db_opens idb_delete_def)

lemma listCachedVersions_opens:
  "opens fo \<Longrightarrow> listCachedVersions fo tf st =
     (Some (records_of st),
      open_effects fo st @ idb_cursor listCachedVersions_handler tf [] (records_of st))"
  by (simp add: listCachedVersions_def with_db_opens)

lemma not_opens: "\<not> opens fo \<Longrightarrow> fo = OpenStuck \<or> (\<exists>e. fo = OpenFails e)"
  by (cases fo) (simp_all add: opens_def)

lemma with_db_not_opens:
  "\<not> opens fo \<Longrightarrow> settled (snd (with_db fo st ex)) \<noteq> Fulfilled u"
  by (auto dest!: not_opens simp: with_db_stuck with_db_fails)

lemma load_settled:
  "opens fo \<Longrightarrow> request_succeeds tf \<Longrightarrow>
   settled (snd (loadCachedGame ko fo tf st)) =
     Fulfilled (js_or (get_record (default_key ko) (records_of st)) JNull)"
  by (cases tf)
     (simp_all add: loadCachedGame_opens settled_silent silent_open_effects idb_get_def dispatch_def)

lemma save_settled:
  "opens fo \<Longrightarrow> settled (snd (saveGameToCache b ko fo tf st)) =
     (case tf of Commits \<Rightarrow> Fulfilled JUndefined
      | RequestFails n e \<Rightarrow> Rejected e
      | CommitFails e \<Rightarrow> Rejected e)"
  by (cases tf)
     (simp_all add: saveGameToCache_opens settled_silent silent_open_effects dispatch_def)

lemma save_fulfilled_iff:
  "settled (snd (saveGameToCache b ko fo tf st)) = Fulfilled u \<longleftrightarrow>
     opens fo \<and> tf = Commits \<and> u = JUndefined"
proof (cases "opens fo")
  case True
  then show ?thesis by (cases tf) (auto simp: save_settled)
next
  case False
  then show ?thesis by (simp add: saveGameToCache_def with_db_not_opens)
qed

lemma save_state:
  "opens fo \<Longrightarrow> fst (saveGameToCache b ko fo Commits st) =
     Some (put_record b (default_key ko) (records_of st))"
  by (simp add: saveGameToCache_opens)


lemma delete_settled:
  "opens fo \<Longrightarrow> settled (snd (deleteCachedGame k fo tf st)) =
     (case tf of Commits \<Rightarrow> Fulfilled JUndefined
      | RequestFails n e \<Rightarrow> Rejected e
      | CommitFails e \<Rightarrow> Rejected e)"
  by (cases tf)
     (simp_all add: deleteCachedGame_opens settled_silent silent_open_effects dispatch_def)

lemma delete_fulfilled_iff:
  "settled (snd (deleteCachedGame k fo tf st)) = Fulfilled u \<longleftrightarrow>
     opens fo \<and> tf = Commits \<and> u = JUndefined"
proof (cases "opens fo")
  case True
  then show ?thesis by (cases tf) (auto simp: delete_settled)
next
  case False
  then show ?thesis by (simp add: deleteCachedGame_def with_db_not_opens)
qed

lemma delete_state:
  "opens fo \<Longrightarrow> fst (deleteCachedGame k fo Commits st) = Some (delete_record k (records_of st))"
  by (simp add: deleteCachedGame_opens)

lemma lookup_records_of: "map_of (records_of st) k = lookup st k"
  by (cases st) (simp_all add: records_of_def lookup_def)

lemma load_rejected:
  "opens fo \<Longrightarrow> settled (snd (loadCachedGame ko fo (RequestFails n e) st)) = Rejected e"
  by (simp add: loadCachedGame_opens settled_silent silent_open_effects idb_get_def dispatch_def)

lemma save_dispatch_fulfilled:
  "settled (dispatch saveGameToCache_handler evs) = Fulfilled u \<Longrightarrow>
   \<exists>pre post. evs = pre @ TxComplete # post \<and>
     settled (dispatch saveGameToCache_handler pre) = Pending"
proof (induction evs)
  case Nil
  then show ?case by (simp add: dispatch_def)
next
  case (Cons ev evs)
  show ?case
  proof (cases ev)
    case (ReqSuccess r)
    with Cons.prems have "settled (dispatch saveGameToCache_handler evs) = Fulfilled u"
      by (simp add: dispatch_def)
    from Cons.IH [OF this] obtain pre post where
      "evs = pre @ TxComplete # post" "settled (dispatch saveGameToCache_handler pre) = Pending"
      by blast
    then have "ev # evs = (ev # pre) @ TxComplete # post \<and>
        settled (dispatch saveGameToCache_handler (ev # pre)) = Pending"
      using ReqSuccess by (simp add: dispatch_def)
    then show ?thesis by blast
  next
    case TxComplete
    then have "ev # evs = [] @ TxComplete # evs \<and>
        settled (dispatch saveGameToCache_handler []) = Pending"
      by (simp add: dispatch_def)
    then show ?thesis by blast
  next
    case (ReqError e)
    with Cons.prems show ?thesis by (simp add: dispatch_def)
  next
    case (TxError e)
    with Cons.prems show ?thesis by (simp add: dispatch_def)
  next
    case (TxAbort e)
    with Cons.prems show ?thesis by (simp add: dispatch_def)
  qed
qed

lemma lookup_put_state: "lookup (Some (put_record v k rs)) k = Some v"
  by (simp add: lookup_def map_of_put_record)

lemma cursor_commits:
  "idb_cursor listCachedVersions_handler Commits found rs =
     replicate (length rs) Continue @
     [Close, Resolve (JArray (map JStr (found @ map fst rs)))]"
  by (induction rs arbitrary: found) simp_all

lemma cursor_commit_fails:
  "idb_cursor listCachedVersions_handler (CommitFails e) found rs =
     replicate (length rs) Continue @ [Close, Reject e]"
  by (induction rs arbitrary: found) simp_all

lemma cursor_request_fails:
  "idb_cursor listCachedVersions_handler (RequestFails n e) found rs =
     replicate (min n (length rs)) Continue @
     [Reject e, Close, Reject NullError, Close, Reject e]"
proof (induction rs arbitrary: n found)
  case Nil
  show ?case by simp
next
  case (Cons r rs)
  show ?case
  proof (cases n)
    case 0
    then show ?thesis by simp
  next
    case (Suc m)
    then show ?thesis using Cons.IH [of m] by simp
  qed
qed

lemmas cursor_scan = cursor_commits cursor_commit_fails cursor_request_fails

lemma silent_replicate_Continue: "list_all silent (replicate n Continue)"
  by (induction n) simp_all

lemma stored_keys_records_of: "map fst (records_of st) = stored_keys st"
  by (cases st) (simp_all add: records_of_def stored_keys_def)

lemma list_settled:
  "opens fo \<Longrightarrow> settled (snd (listCachedVersions fo tf st)) =
     (case tf of Commits \<Rightarrow> Fulfilled (JArray (map JStr (stored_keys st)))
      | RequestFails n e \<Rightarrow> Rejected e
      | CommitFails e \<Rightarrow> Rejected e)"
  by (cases tf)
     (simp_all add: listCachedVersions_opens settled_silent silent_open_effects
        cursor_scan silent_replicate_Continue stored_keys_records_of)

lemma list_fulfilled_iff:
  "settled (snd (listCachedVersions fo tf st)) = Fulfilled v \<longleftrightarrow>
     opens fo \<and> tf = Commits \<and> v = JArray (map JStr (stored_keys st))"
proof (cases "opens fo")
  case True
  then show ?thesis by (cases tf) (auto simp: list_settled)
next
  case False
  then show ?thesis by (simp add: listCachedVersions_def with_db_not_opens)
qed

lemma store_ok_distinct: "store_ok st \<Longrightarrow> distinct (stored_keys st)"
  by (cases st) (simp_all add: store_ok_def stored_keys_def strict_sorted_iff)

lemma stored_keys_dom: "set (stored_keys st) = dom (lookup st)"
  by (cases st) (auto simp: stored_keys_def lookup_def dom_def map_of_eq_None_iff)

lemma with_db_state:
  "fst (with_db fo st ex) = (if opens fo then Some (fst (ex (records_of st))) else st)"
  by (auto simp: with_db_opens dest!: not_opens simp: with_db_stuck with_db_fails)

lemma store_ok_records_of: "store_ok st \<Longrightarrow> sorted_wrt (<) (map fst (records_of st))"
  by (cases st) (simp_all add: store_ok_def records_of_def)

lemma store_ok_openGameDB: "store_ok st \<Longrightarrow> store_ok (fst (openGameDB fo st))"
  by (cases fo; cases st)
     (simp_all add: openGameDB_def dispatch_def upgrade_events_def store_ok_def)

lemma store_ok_exec: "store_ok st \<Longrightarrow> store_ok (fst (exec c fo tf st))"
proof -
  assume ok: "store_ok st"
  show ?thesis
  proof (cases c)
    case OpenGameDB
    then show ?thesis using ok by (simp add: store_ok_openGameDB case_prod_unfold)
  next
    case (LoadCachedGame ko)
    then show ?thesis using ok
      by (simp add: case_prod_unfold loadCachedGame_def with_db_state store_ok_def[of "Some _"]
          store_ok_records_of)
  next
    case (SaveGameToCache b ko)
    then show ?thesis using ok
      by (cases tf)
         (simp_all add: case_prod_unfold saveGameToCache_def with_db_state
            store_ok_def[of "Some _"] idb_put_def store_ok_records_of sorted_put_record)
  next
    case (DeleteCachedGame k)
    then show ?thesis using ok
      by (cases tf)
         (simp_all add: case_prod_unfold deleteCachedGame_def with_db_state
            store_ok_def[of "Some _"] idb_delete_def store_ok_records_of sorted_delete_record)
  next
    case ListCachedVersions
    then show ?thesis using ok
      by (simp add: case_prod_unfold listCachedVersions_def with_db_state
          store_ok_def[of "Some _"] store_ok_records_of)
  qed
qed

lemma store_ok_run: "store_ok st \<Longrightarrow> store_ok (fst (run cs st))"
proof (induction cs arbitrary: st)
  case Nil
  then show ?case by simp
next
  case (Cons c cs)
  obtain cl fo tf where c: "c = (cl, fo, tf)" by (cases c)
  from Cons.prems have "store_ok (fst (exec cl fo tf st))" by (rule store_ok_exec)
  from Cons.IH [OF this] show ?case by (simp add: c case_prod_unfold)
qed

lemma creations_dispatch_load: "creations (dispatch loadCachedGame_handler evs) = 0"
proof (induction evs)
  case Nil then show ?case by (simp add: dispatch_def creations_def)
next
  case (Cons ev evs)
  then show ?case by (cases ev) (simp_all add: dispatch_def creations_def)
qed

lemma creations_dispatch_save: "creations (dispatch saveGameToCache_handler evs) = 0"
proof (induction evs)
  case Nil then show ?case by (simp add: dispatch_def creations_def)
next
  case (Cons ev evs)
  then show ?case by (cases ev) (simp_all add: dispatch_def creations_def)
qed

lemma creations_dispatch_delete: "creations (dispatch deleteCachedGame_handler evs) = 0"
proof (induction evs)
  case Nil then show ?case by (simp add: dispatch_def creations_def)
next
  case (Cons ev evs)
  then show ?case by (cases ev) (simp_all add: dispatch_def creations_def)
qed

lemma creations_replicate_Continue: "creations (replicate n Continue :: 'a action list) = 0"
  by (induction n) (simp_all add: creations_def)

lemma creations_dispatch_list:
  "creations (idb_cursor listCachedVersions_handler tf found rs) = 0"
  by (cases tf)
     (simp_all add: cursor_scan creations_append creations_replicate_Continue,
      simp_all add: creations_def)

lemma with_db_creations:
  assumes "\<And>rs. creations (snd (ex rs)) = 0"
  shows "creations (snd (with_db fo st ex)) = (if opens fo \<and> st = None then 1 else 0)"
proof (cases "opens fo")
  case True
  then show ?thesis by (simp add: with_db_opens creations_append creations_open_effects assms)
next
  case False
  then show ?thesis
    by (auto dest!: not_opens simp: with_db_stuck with_db_fails creations_def)
qed

lemma openGameDB_result:
  "fst (openGameDB fo st) = (if opens fo then Some (records_of st) else st)
   \<and> creations (snd (openGameDB fo st)) = (if opens fo \<and> st = None then 1 else 0)"
  by (cases fo; cases st)
     (simp_all add: openGameDB_def dispatch_def upgrade_events_def opens_def records_of_def
        creations_def)

lemma exec_result:
  "snd (exec c fo tf st) = (if opens fo \<and> st = None then 1 else 0)
   \<and> (fst (exec c fo tf st) = None \<longleftrightarrow> \<not> opens fo \<and> st = None)"
proof (cases c)
  case OpenGameDB
  then show ?thesis by (simp add: case_prod_unfold openGameDB_result)
next
  case (LoadCachedGame ko)
  then show ?thesis
    by (simp add: case_prod_unfold loadCachedGame_def with_db_creations with_db_state
        creations_dispatch_load)
next
  case (SaveGameToCache b ko)
  then show ?thesis
    by (simp add: case_prod_unfold saveGameToCache_def with_db_creations with_db_state
        creations_dispatch_save idb_put_def)
next
  case (DeleteCachedGame k)
  then show ?thesis
    by (simp add: case_prod_unfold deleteCachedGame_def with_db_creations with_db_state
        creations_dispatch_delete idb_delete_def)
next
  case ListCachedVersions
  then show ?thesis
    by (simp add: case_prod_unfold listCachedVersions_def with_db_creations with_db_state
        creations_dispatch_list)
qed

lemma run_creations:
  "snd (run cs st) \<le> 1 \<and> (st \<noteq> None \<longrightarrow> snd (run cs st) = 0)"
proof (induction cs arbitrary: st)
  case Nil
  then show ?case by simp
next
  case (Cons c cs)
  obtain cl fo tf where c: "c = (cl, fo, tf)" by (cases c)
  let ?st1 = "fst (exec cl fo tf st)"
  have run: "snd (run (c # cs) st) = snd (exec cl fo tf st) + snd (run cs ?st1)"
    by (simp add: c case_prod_unfold)
  show ?case
  proof (cases "opens fo \<and> st = None")
    case True
    then have e: "snd (exec cl fo tf st) = 1" and "?st1 \<noteq> None"
      by (simp_all add: exec_result)
    with Cons.IH [of ?st1] have "snd (run cs ?st1) = 0" by simp
    with e have "snd (run (c # cs) st) = 1" unfolding run by simp
    with True show ?thesis by simp
  next
    case False
    then have e: "snd (exec cl fo tf st) = 0" by (simp add: exec_result)
    have "st \<noteq> None \<Longrightarrow> ?st1 \<noteq> None" by (simp add: exec_result)
    with Cons.IH [of ?st1] have "snd (run cs ?st1) \<le> 1"
      and "st \<noteq> None \<Longrightarrow> snd (run cs ?st1) = 0"
      by simp_all
    with e show ?thesis unfolding run by simp
  qed
qed


lemma openGameDB_settled: "opens fo \<Longrightarrow> settled (snd (openGameDB fo st)) = Fulfilled Conn"
  by (simp add: openGameDB_opens)

lemma load_trace:
  "opens fo \<Longrightarrow> Close \<in> set (snd (loadCachedGame ko fo tf st))
     \<and> settled (snd (loadCachedGame ko fo tf st)) \<noteq> Pending
     \<and> closed_after_settle (snd (loadCachedGame ko fo tf st))"
  by (cases tf)
     (simp_all add: loadCachedGame_opens Close_silent settled_silent closed_after_settle_silent
        silent_open_effects idb_get_def dispatch_def)

lemma save_trace:
  "opens fo \<Longrightarrow> Close \<in> set (snd (saveGameToCache b ko fo tf st))
     \<and> settled (snd (saveGameToCache b ko fo tf st)) \<noteq> Pending
     \<and> (request_succeeds tf \<longrightarrow> closed_before_settle (snd (saveGameToCache b ko fo tf st)))"
  by (cases tf)
     (simp_all add: saveGameToCache_opens Close_silent settled_silent closed_before_settle_silent
        silent_open_effects dispatch_def)

lemma delete_trace:
  "opens fo \<Longrightarrow> Close \<in> set (snd (deleteCachedGame k fo tf st))
     \<and> settled (snd (deleteCachedGame k fo tf st)) \<noteq> Pending
     \<and> (request_succeeds tf \<longrightarrow> closed_before_settle (snd (deleteCachedGame k fo tf st)))"
  by (cases tf)
     (simp_all add: deleteCachedGame_opens Close_silent settled_silent closed_before_settle_silent
        silent_open_effects dispatch_def)

lemma list_trace:
  "opens fo \<Longrightarrow> Close \<in> set (snd (listCachedVersions fo tf st))
     \<and> settled (snd (listCachedVersions fo tf st)) \<noteq> Pending
     \<and> (request_succeeds tf \<longrightarrow> closed_before_settle (snd (listCachedVersions fo tf st)))"
  by (cases tf)
     (simp_all add: listCachedVersions_opens Close_silent settled_silent
        closed_before_settle_silent silent_open_effects cursor_scan
        silent_replicate_Continue)

text \<open>
  On a request error the request's own handler rejects first; the handlers of the
  transaction, to which the event bubbles, close afterwards.
\<close>

lemma request_error_trace:
  "opens fo \<Longrightarrow>
     closed_after_settle (snd (loadCachedGame ko fo (RequestFails n e) st))
   \<and> closed_after_settle (snd (saveGameToCache b ko fo (RequestFails n e) st))
   \<and> closed_after_settle (snd (deleteCachedGame k fo (RequestFails n e) st))
   \<and> closed_after_settle (snd (listCachedVersions fo (RequestFails n e) st))"
  by (simp add: loadCachedGame_opens saveGameToCache_opens deleteCachedGame_opens
      listCachedVersions_opens closed_after_settle_silent silent_open_effects idb_get_def
      dispatch_def cursor_scan silent_replicate_Continue)

lemma open_fails_trace:
  "snd (loadCachedGame ko (OpenFails e) tf st) = [Reject e]
   \<and> snd (saveGameToCache b ko (OpenFails e) tf st) = [Reject e]
   \<and> snd (deleteCachedGame k (OpenFails e) tf st) = [Reject e]
   \<and> snd (listCachedVersions (OpenFails e) tf st) = [Reject e]"
  by (simp add: loadCachedGame_def saveGameToCache_def deleteCachedGame_def
      listCachedVersions_def with_db_fails)

section \<open>The claims\<close>



text \<open>
  C2, as stated: in every operation and on every terminal path after a successful open,
  \<^verbatim>\<open>db.close()\<close> is called before the promise settles. It fails for \<^verbatim>\<open>load\<close>: the
  promise is resolved in \<^verbatim>\<open>getReq.onsuccess\<close>, the connection is closed later, in
  \<^verbatim>\<open>transaction.oncomplete\<close>.
\<close>

theorem close_before_settle_counterexample:
  "snd (loadCachedGame (Some ''vanilla'') OpenOk Commits (Some [(''vanilla'', JBlob [1, 2])])) =
     [Resolve (JBlob [1, 2]), Close]
   \<and> \<not> closed_before_settle
        (snd (loadCachedGame (Some ''vanilla'') OpenOk Commits (Some [(''vanilla'', JBlob [1, 2])])))"
  by (simp add: loadCachedGame_opens opens_def open_effects_def records_of_def default_key_def
      idb_get_def get_record_def dispatch_def js_or_def)

text \<open>
  C2, amended. After a successful open every operation settles its promise and closes the
  connection, on every path of the transaction (complete, request error, abort). When
  the request succeeds, so that the transaction completes or aborts on commit,
  \<^verbatim>\<open>save\<close>, \<^verbatim>\<open>delete\<close> and \<^verbatim>\<open>listKeys\<close> close the connection before the promise
  settles, while \<^verbatim>\<open>load\<close> settles first and closes afterwards. When the open itself
  fails the promise is rejected and nothing is closed.
\<close>

theorem connection_closed:
  assumes "opens fo"
  shows "Close \<in> set (snd (loadCachedGame ko fo tf st))
     \<and> Close \<in> set (snd (saveGameToCache b ko fo tf st))
     \<and> Close \<in> set (snd (deleteCachedGame k fo tf st))
     \<and> Close \<in> set (snd (listCachedVersions fo tf st))
     \<and> settled (snd (loadCachedGame ko fo tf st)) \<noteq> Pending
     \<and> settled (snd (saveGameToCache b ko fo tf st)) \<noteq> Pending
     \<and> settled (snd (deleteCachedGame k fo tf st)) \<noteq> Pending
     \<and> settled (snd (listCachedVersions fo tf st)) \<noteq> Pending
     \<and> (request_succeeds tf \<longrightarrow>
           closed_before_settle (snd (saveGameToCache b ko fo tf st))
         \<and> closed_before_settle (snd (deleteCachedGame k fo tf st))
         \<and> closed_before_settle (snd (listCachedVersions fo tf st))
         \<and> closed_after_settle (snd (loadCachedGame ko fo tf st)))
     \<and> snd (loadCachedGame ko (OpenFails e) tf st) = [Reject e]
     \<and> snd (saveGameToCache b ko (OpenFails e) tf st) = [Reject e]
     \<and> snd (deleteCachedGame k (OpenFails e) tf st) = [Reject e]
     \<and> snd (listCachedVersions (OpenFails e) tf st) = [Reject e]"
  using load_trace [OF assms, of ko tf st] save_trace [OF assms, of b ko tf st]
    delete_trace [OF assms, of k tf st] list_trace [OF assms, of tf st]
    open_fails_trace [of ko e tf st b k]
  by simp

theorem connection_closed_witness:
  "opens OpenOk \<and> request_succeeds (CommitFails (DOMException ''QuotaExceededError''))
   \<and> snd (saveGameToCache (JBlob [1, 2]) None OpenOk
        (CommitFails (DOMException ''QuotaExceededError'')) None) =
       [CreateObjectStore ''cache'', Close, Reject (DOMException ''QuotaExceededError'')]
   \<and> closed_before_settle (snd (saveGameToCache (JBlob [1, 2]) None OpenOk
        (CommitFails (DOMException ''QuotaExceededError'')) None))
   \<and> closed_before_settle (snd (deleteCachedGame ''vanilla'' OpenOk
        (CommitFails (DOMException ''QuotaExceededError'')) None))
   \<and> closed_before_settle (snd (listCachedVersions OpenOk
        (CommitFails (DOMException ''QuotaExceededError'')) None))
   \<and> closed_after_settle (snd (loadCachedGame None OpenOk
        (CommitFails (DOMException ''QuotaExceededError'')) None))
   \<and> Close \<in> set (snd (loadCachedGame None OpenOk
        (CommitFails (DOMException ''QuotaExceededError'')) None))"
proof -
  have o: "opens OpenOk" by (simp add: opens_def)
  have r: "request_succeeds (CommitFails (DOMException ''QuotaExceededError''))" by simp
  have t: "snd (saveGameToCache (JBlob [1, 2]) None OpenOk
        (CommitFails (DOMException ''QuotaExceededError'')) None) =
       [CreateObjectStore ''cache'', Close, Reject (DOMException ''QuotaExceededError'')]"
    by (simp add: saveGameToCache_opens o open_effects_def dispatch_def)
  from connection_closed [OF o, of None "CommitFails (DOMException ''QuotaExceededError'')" None
      "JBlob [1, 2]" "''vanilla''"] o r t
  show ?thesis by simp
qed

text \<open>
  C3. For every key \<open>k\<close> that has no record (never saved), and for every key whose
  \<^verbatim>\<open>delete\<close> has resolved, a \<^verbatim>\<open>load(k)\<close> whose open and get request succeed resolves
  with \<^verbatim>\<open>null\<close>: it is fulfilled, not rejected. A rejection is what a failing get
  request gives, whatever the key.
\<close>

theorem load_absent_key:
  assumes "opens fo" and "request_succeeds tf"
  shows "(lookup st k = None \<longrightarrow>
            settled (snd (loadCachedGame (Some k) fo tf st)) = Fulfilled JNull)
     \<and> (settled (snd (deleteCachedGame k fo1 tf1 st)) = Fulfilled u \<longrightarrow>
            settled (snd (loadCachedGame (Some k) fo tf (fst (deleteCachedGame k fo1 tf1 st)))) =
              Fulfilled JNull)
     \<and> settled (snd (loadCachedGame (Some k) fo (RequestFails n e) st)) = Rejected e"
proof (intro conjI impI)
  assume "lookup st k = None"
  then have "get_record k (records_of st) = JUndefined"
    by (simp add: get_record_def lookup_records_of)
  with assms show "settled (snd (loadCachedGame (Some k) fo tf st)) = Fulfilled JNull"
    by (simp add: load_settled default_key_def js_or_def)
next
  assume "settled (snd (deleteCachedGame k fo1 tf1 st)) = Fulfilled u"
  then have "opens fo1" and "tf1 = Commits"
    by (simp_all add: delete_fulfilled_iff)
  then have "get_record k (records_of (fst (deleteCachedGame k fo1 tf1 st))) = JUndefined"
    by (simp add: delete_state records_of_def get_record_def map_of_delete_record)
  with assms
  show "settled (snd (loadCachedGame (Some k) fo tf (fst (deleteCachedGame k fo1 tf1 st)))) =
      Fulfilled JNull"
    by (simp add: load_settled default_key_def js_or_def)
next
  from assms(1) show "settled (snd (loadCachedGame (Some k) fo (RequestFails n e) st)) = Rejected e"
    by (rule load_rejected)
qed

theorem load_absent_key_witness:
  "opens OpenOk \<and> request_succeeds Commits
   \<and> lookup (Some [(''modded'', JBlob [7])]) ''vanilla'' = None
   \<and> settled (snd (loadCachedGame (Some ''vanilla'') OpenOk Commits (Some [(''modded'', JBlob [7])]))) =
       Fulfilled JNull
   \<and> settled (snd (deleteCachedGame ''modded'' OpenOk Commits (Some [(''modded'', JBlob [7])]))) =
       Fulfilled JUndefined
   \<and> settled (snd (loadCachedGame (Some ''modded'') OpenOk Commits
        (fst (deleteCachedGame ''modded'' OpenOk Commits (Some [(''modded'', JBlob [7])]))))) =
       Fulfilled JNull"
proof -
  have o: "opens OpenOk" by (simp add: opens_def)
  have r: "request_succeeds Commits" by simp
  have a: "lookup (Some [(''modded'', JBlob [7])]) ''vanilla'' = None"
    by (simp add: lookup_def)
  have d: "settled (snd (deleteCachedGame ''modded'' OpenOk Commits (Some [(''modded'', JBlob [7])]))) =
       Fulfilled JUndefined"
    by (simp add: delete_fulfilled_iff o)
  from load_absent_key [OF o r, of "Some [(''modded'', JBlob [7])]" "''vanilla''"] a
  have 1: "settled (snd (loadCachedGame (Some ''vanilla'') OpenOk Commits
      (Some [(''modded'', JBlob [7])]))) = Fulfilled JNull"
    by blast
  from load_absent_key [OF o r, of "Some [(''modded'', JBlob [7])]" "''modded''" OpenOk Commits JUndefined] d
  have 2: "settled (snd (loadCachedGame (Some ''modded'') OpenOk Commits
        (fst (deleteCachedGame ''modded'' OpenOk Commits (Some [(''modded'', JBlob [7])]))))) =
       Fulfilled JNull"
    by blast
  from o r a d 1 2 show ?thesis by simp
qed

text \<open>
  C4. For every blob and key, the promise of \<^verbatim>\<open>save\<close> is fulfilled exactly when the open
  succeeded and the read-write transaction committed, and then the store holds the blob
  under the key. Whatever events reach the handlers, a fulfilled promise means that a
  \<^verbatim>\<open>complete\<close> event of the transaction was among them and that the promise was still
  pending before it; the success of the put request alone leaves it pending.
\<close>

theorem save_resolves_on_commit:
  "(settled (snd (saveGameToCache b ko fo tf st)) = Fulfilled u \<longleftrightarrow>
      opens fo \<and> tf = Commits \<and> u = JUndefined)
   \<and> (settled (snd (saveGameToCache b ko fo tf st)) = Fulfilled u \<longrightarrow>
        lookup (fst (saveGameToCache b ko fo tf st)) (default_key ko) = Some b)
   \<and> (settled (dispatch saveGameToCache_handler evs) = Fulfilled u \<longrightarrow>
        (\<exists>pre post. evs = pre @ TxComplete # post \<and>
           settled (dispatch saveGameToCache_handler pre) = Pending))
   \<and> settled (dispatch saveGameToCache_handler [ReqSuccess r]) = Pending"
proof (intro conjI impI)
  show "settled (snd (saveGameToCache b ko fo tf st)) = Fulfilled u \<longleftrightarrow>
      opens fo \<and> tf = Commits \<and> u = JUndefined"
    by (rule save_fulfilled_iff)
next
  assume "settled (snd (saveGameToCache b ko fo tf st)) = Fulfilled u"
  then have "opens fo" and "tf = Commits" by (simp_all add: save_fulfilled_iff)
  then show "lookup (fst (saveGameToCache b ko fo tf st)) (default_key ko) = Some b"
    by (simp add: save_state lookup_put_state)
next
  assume "settled (dispatch saveGameToCache_handler evs) = Fulfilled u"
  then show "\<exists>pre post. evs = pre @ TxComplete # post \<and>
      settled (dispatch saveGameToCache_handler pre) = Pending"
    by (rule save_dispatch_fulfilled)
next
  show "settled (dispatch saveGameToCache_handler [ReqSuccess r]) = Pending"
    by (simp add: dispatch_def)
qed

theorem save_resolves_on_commit_witness:
  "settled (snd (saveGameToCache (JBlob [1, 2]) (Some ''vanilla'') OpenOk Commits None)) =
     Fulfilled JUndefined
   \<and> lookup (fst (saveGameToCache (JBlob [1, 2]) (Some ''vanilla'') OpenOk Commits None)) ''vanilla'' =
     Some (JBlob [1, 2])
   \<and> settled (dispatch saveGameToCache_handler [ReqSuccess (JStr ''vanilla''), TxComplete]) =
     Fulfilled JUndefined
   \<and> (\<exists>pre post. [ReqSuccess (JStr ''vanilla''), TxComplete] = pre @ TxComplete # post \<and>
         settled (dispatch saveGameToCache_handler pre) = Pending)
   \<and> settled (snd (saveGameToCache (JBlob [1, 2]) (Some ''vanilla'') OpenOk
         (CommitFails (DOMException ''QuotaExceededError'')) None)) \<noteq> Fulfilled JUndefined"
proof -
  have o: "opens OpenOk" by (simp add: opens_def)
  have d: "settled (dispatch saveGameToCache_handler [ReqSuccess (JStr ''vanilla''), TxComplete]) =
     Fulfilled JUndefined"
    by (simp add: dispatch_def)
  from save_resolves_on_commit [of "JBlob [1, 2]" "Some ''vanilla''" OpenOk Commits None JUndefined
      "[ReqSuccess (JStr ''vanilla''), TxComplete]"] o d
  have 1: "settled (snd (saveGameToCache (JBlob [1, 2]) (Some ''vanilla'') OpenOk Commits None)) =
       Fulfilled JUndefined"
    and 2: "lookup (fst (saveGameToCache (JBlob [1, 2]) (Some ''vanilla'') OpenOk Commits None)) ''vanilla'' =
       Some (JBlob [1, 2])"
    and 3: "\<exists>pre post. [ReqSuccess (JStr ''vanilla''), TxComplete] = pre @ TxComplete # post \<and>
         settled (dispatch saveGameToCache_handler pre) = Pending"
    by (simp_all add: default_key_def)
  from save_resolves_on_commit [of "JBlob [1, 2]" "Some ''vanilla''" OpenOk
      "CommitFails (DOMException ''QuotaExceededError'')" None JUndefined]
  have 4: "settled (snd (saveGameToCache (JBlob [1, 2]) (Some ''vanilla'') OpenOk
         (CommitFails (DOMException ''QuotaExceededError'')) None)) \<noteq> Fulfilled JUndefined"
    by simp
  from 1 2 d 3 4 show ?thesis by blast
qed

text \<open>
  C5. For every key \<open>k\<close> that has no record, a \<^verbatim>\<open>delete(k)\<close> whose open succeeds and
  whose transaction commits resolves, and the records of the store are what they were.
\<close>

theorem delete_absent_key:
  assumes "lookup st k = None" and "opens fo"
  shows "settled (snd (deleteCachedGame k fo Commits st)) = Fulfilled JUndefined
     \<and> records_of (fst (deleteCachedGame k fo Commits st)) = records_of st"
  using assms
  by (simp add: delete_settled delete_state records_of_def[of "Some _"]
      delete_record_absent lookup_records_of)

theorem delete_absent_key_witness:
  "lookup (Some [(''modded'', JBlob [7])]) ''vanilla'' = None \<and> opens OpenOk
   \<and> settled (snd (deleteCachedGame ''vanilla'' OpenOk Commits (Some [(''modded'', JBlob [7])]))) =
       Fulfilled JUndefined
   \<and> records_of (fst (deleteCachedGame ''vanilla'' OpenOk Commits (Some [(''modded'', JBlob [7])]))) =
       [(''modded'', JBlob [7])]"
proof -
  have a: "lookup (Some [(''modded'', JBlob [7])]) ''vanilla'' = None"
    by (simp add: lookup_def)
  have o: "opens OpenOk" by (simp add: opens_def)
  from delete_absent_key [OF a o] a o show ?thesis by (simp add: records_of_def)
qed

text \<open>
  C6. Over an object store (ascending keys, one record per key: the calls of this file
  keep that invariant), a fulfilled \<^verbatim>\<open>listKeys()\<close> yields the array of the keys as
  the cursor meets them: the same array for the same store, without duplicates, holding
  exactly the keys that have a record. It is fulfilled whenever the open succeeds and the
  transaction commits. The cursor goes on only while the handler calls
  \<^verbatim>\<open>cursor.continue()\<close>, which \<^verbatim>\<open>cursorReq.onsuccess\<close> does at every record.
\<close>

theorem listCachedVersions_keys:
  assumes "store_ok st"
  shows "(settled (snd (listCachedVersions fo tf st)) = Fulfilled v \<longrightarrow>
            v = JArray (map JStr (stored_keys st)))
     \<and> (opens fo \<longrightarrow> settled (snd (listCachedVersions fo Commits st)) =
            Fulfilled (JArray (map JStr (stored_keys st))))
     \<and> distinct (stored_keys st)
     \<and> set (stored_keys st) = dom (lookup st)"
  using assms
  by (simp add: list_fulfilled_iff list_settled store_ok_distinct stored_keys_dom)

theorem listCachedVersions_keys_witness:
  "store_ok (fst (run [(SaveGameToCache (JBlob [3]) (Some ''c''), OpenOk, Commits),
                       (SaveGameToCache (JBlob [1]) (Some ''a''), OpenOk, Commits),
                       (SaveGameToCache (JBlob [2]) (Some ''b''), OpenOk, Commits)] None))
   \<and> opens OpenOk
   \<and> settled (snd (listCachedVersions OpenOk Commits
        (fst (run [(SaveGameToCache (JBlob [3]) (Some ''c''), OpenOk, Commits),
                   (SaveGameToCache (JBlob [1]) (Some ''a''), OpenOk, Commits),
                   (SaveGameToCache (JBlob [2]) (Some ''b''), OpenOk, Commits)] None)))) =
       Fulfilled (JArray [JStr ''a'', JStr ''b'', JStr ''c''])"
proof -
  let ?st = "fst (run [(SaveGameToCache (JBlob [3]) (Some ''c''), OpenOk, Commits),
                       (SaveGameToCache (JBlob [1]) (Some ''a''), OpenOk, Commits),
                       (SaveGameToCache (JBlob [2]) (Some ''b''), OpenOk, Commits)] None)"
  have o: "opens OpenOk" by (simp add: opens_def)
  have st: "?st = Some [(''a'', JBlob [1]), (''b'', JBlob [2]), (''c'', JBlob [3])]"
    by (simp add: saveGameToCache_opens o records_of_def default_key_def)
  have ok: "store_ok ?st" unfolding st by (simp add: store_ok_def)
  from listCachedVersions_keys [OF ok, of OpenOk Commits] o
  have "settled (snd (listCachedVersions OpenOk Commits ?st)) =
      Fulfilled (JArray (map JStr (stored_keys ?st)))"
    by blast
  then have "settled (snd (listCachedVersions OpenOk Commits ?st)) =
      Fulfilled (JArray [JStr ''a'', JStr ''b'', JStr ''c''])"
    unfolding st by (simp add: stored_keys_def)
  with ok o show ?thesis by blast
qed



text \<open>
  C8. Over any sequence of calls, whatever the browser does with each of them, the object
  store is created at most once. When the database exists, no call creates a store, and
  an open leaves the database as it is and creates nothing: all it may do is resolve with
  the connection.
\<close>

theorem store_created_at_most_once:
  "snd (run cs st) \<le> 1
   \<and> (st \<noteq> None \<longrightarrow> snd (run cs st) = 0
         \<and> fst (openGameDB fo st) = st
         \<and> creations (snd (openGameDB fo st)) = 0
         \<and> (opens fo \<longrightarrow> settled (snd (openGameDB fo st)) = Fulfilled Conn))"
proof (intro conjI impI)
  show "snd (run cs st) \<le> 1" using run_creations [of cs st] by simp
next
  assume "st \<noteq> None"
  then show "snd (run cs st) = 0" using run_creations [of cs st] by simp
next
  assume "st \<noteq> None"
  then show "fst (openGameDB fo st) = st"
    by (auto simp: openGameDB_result records_of_def)
next
  assume "st \<noteq> None"
  then show "creations (snd (openGameDB fo st)) = 0"
    by (simp add: openGameDB_result)
next
  assume "opens fo"
  then show "settled (snd (openGameDB fo st)) = Fulfilled Conn"
    by (rule openGameDB_settled)
qed

theorem store_created_at_most_once_witness:
  "snd (run [(LoadCachedGame None, OpenOk, Commits),
             (SaveGameToCache (JBlob [1, 2]) None, OpenOk, Commits),
             (ListCachedVersions, OpenBlocked, Commits),
             (DeleteCachedGame ''vanilla'', OpenOk, Commits)] None) = 1
   \<and> Some [(''vanilla'', JBlob [1, 2])] \<noteq> None
   \<and> snd (run [(SaveGameToCache (JBlob [3]) None, OpenOk, Commits), (OpenGameDB, OpenOk, Commits)]
        (Some [(''vanilla'', JBlob [1, 2])])) = 0
   \<and> fst (openGameDB OpenOk (Some [(''vanilla'', JBlob [1, 2])])) = Some [(''vanilla'', JBlob [1, 2])]
   \<and> creations (snd (openGameDB OpenOk (Some [(''vanilla'', JBlob [1, 2])]))) = 0
   \<and> opens OpenOk
   \<and> settled (snd (openGameDB OpenOk (Some [(''vanilla'', JBlob [1, 2])]))) = Fulfilled Conn"
proof -
  have o: "opens OpenOk" by (simp add: opens_def)
  have ob: "opens OpenBlocked" by (simp add: opens_def)
  have n: "Some [(''vanilla'', JBlob [1, 2])] \<noteq> (None :: idb)" by simp
  have 1: "snd (run [(LoadCachedGame None, OpenOk, Commits),
             (SaveGameToCache (JBlob [1, 2]) None, OpenOk, Commits),
             (ListCachedVersions, OpenBlocked, Commits),
             (DeleteCachedGame ''vanilla'', OpenOk, Commits)] None) = 1"
    by (simp add: o ob loadCachedGame_opens saveGameToCache_opens listCachedVersions_opens
        deleteCachedGame_opens creations_append creations_open_effects creations_dispatch_load
        creations_dispatch_save creations_dispatch_list creations_dispatch_delete)
  from store_created_at_most_once
    [of "[(SaveGameToCache (JBlob [3]) None, OpenOk, Commits), (OpenGameDB, OpenOk, Commits)]"
        "Some [(''vanilla'', JBlob [1, 2])]" OpenOk] n o
  have "snd (run [(SaveGameToCache (JBlob [3]) None, OpenOk, Commits), (OpenGameDB, OpenOk, Commits)]
        (Some [(''vanilla'', JBlob [1, 2])])) = 0
   \<and> fst (openGameDB OpenOk (Some [(''vanilla'', JBlob [1, 2])])) = Some [(''vanilla'', JBlob [1, 2])]
   \<and> creations (snd (openGameDB OpenOk (Some [(''vanilla'', JBlob [1, 2])]))) = 0
   \<and> settled (snd (openGameDB OpenOk (Some [(''vanilla'', JBlob [1, 2])]))) = Fulfilled Conn"
    by blast
  with 1 n o show ?thesis by blast
qed

text \<open>
  C9. A \<^verbatim>\<open>blocked\<close> event makes the open log its diagnostic with \<^verbatim>\<open>console.error\<close> and
  leaves the promise as it was: while the holder has not released, the promise is
  pending (neither fulfilled nor rejected); once it releases and the request succeeds,
  the promise is fulfilled with the connection.
\<close>

theorem open_blocked:
  "dispatch openGameDB_handler [Blocked] = [ConsoleError blocked_message]
   \<and> settled (dispatch openGameDB_handler (Blocked # evs)) =
       settled (dispatch openGameDB_handler evs)
   \<and> settled (snd (openGameDB OpenStuck st)) = Pending
   \<and> console (snd (openGameDB OpenStuck st)) = [blocked_message]
   \<and> settled (snd (openGameDB OpenBlocked st)) = Fulfilled Conn
   \<and> console (snd (openGameDB OpenBlocked st)) = [blocked_message]"
  by (cases st)
     (simp_all add: dispatch_def openGameDB_def upgrade_events_def console_def)

theorem open_blocked_witness:
  "settled (snd (openGameDB OpenStuck None)) = Pending
   \<and> console (snd (openGameDB OpenStuck None)) = [blocked_message]
   \<and> settled (snd (openGameDB OpenBlocked None)) = Fulfilled Conn
   \<and> snd (openGameDB OpenBlocked None) =
       [ConsoleError blocked_message, CreateObjectStore ''cache'', Resolve Conn]"
proof -
  have "snd (openGameDB OpenBlocked None) =
       [ConsoleError blocked_message, CreateObjectStore ''cache'', Resolve Conn]"
    by (simp add: dispatch_def openGameDB_def upgrade_events_def)
  with open_blocked [of "[]" None] show ?thesis by blast
qed



end
